theory Spec2Isabelle
  imports Main
begin

section \<open>Revisions, statements, errors\<close>

text \<open>
  A revision identifier is a Python string or \<open>None\<close>.  The run loop uses Python
  truthiness on revisions (\<open>if self._start_from_rev\<close>, \<open>not current_rev\<close>,
  \<open>not rev\<close>): \<open>None\<close> and the empty string are falsy.  \<open>str_of\<close> is what the
  format \<open>%s\<close> prints.
\<close>

type_synonym revision = "string option"

definition truthy :: "revision \<Rightarrow> bool" where
  "truthy r = (case r of None \<Rightarrow> False | Some s \<Rightarrow> s \<noteq> [])"

definition str_of :: "revision \<Rightarrow> string" where
  "str_of r = (case r of None \<Rightarrow> ''None'' | Some s \<Rightarrow> s)"

text \<open>
  The statements the context sends to its connection or to its implementation object.
  The first five act on the table \<open>alembic_version\<close> (\<open>_version\<close>, one column
  \<open>version_num\<close>); an insert or update carries the text of its literal column.
  \<open>Sql\<close> is a statement issued by a migration function.
\<close>

datatype stmt =
    VersionCreate
  | VersionDrop
  | VersionDelete
  | VersionInsert string
  | VersionUpdate string
  | Sql string

text \<open>The argument of \<open>literal_column\<close> in \<open>_update_current_rev\<close>: \<open>"'%s'" % new\<close>.\<close>

definition quoted :: "string \<Rightarrow> string" where
  "quoted new = CHR 0x27 # new @ [CHR 0x27]"

datatype error =
    CommandError string
  | KeyError string
  | Exception string
  | UnboundExecutionError
  | OperationalError string
  | MigrationError string

section \<open>The environment: the connected store and the output buffer\<close>

text \<open>
  The database behind a live connection, as far as the context touches it: the table
  \<open>alembic_version\<close> (\<open>None\<close> while the table does not exist, otherwise its rows
  in order) and the log of every statement the store has executed.  The store is
  SQLAlchemy's and the database's, not this repository's; \<open>store_execute\<close> is the
  usual meaning of the six statements: a delete without a condition removes every row,
  an update without a condition sets every row, an insert adds a row, and a statement
  on a missing table (or the creation of an existing one) is an error of the driver.
\<close>

record store =
  version_table :: "string list option"
  executed :: "stmt list"

text \<open>
  An insert or update carries the SQL text that \<open>_update_current_rev\<close> has built for
  the column \<open>version_num\<close> (\<open>String(32), nullable=False\<close>): the revision between two
  quotes, not escaped.  What the database makes of that text is the database's: the
  argument \<open>reads\<close> of \<open>store_execute\<close> gives the value it stores for the text, or
  \<open>None\<close> when it rejects the statement, because the text is not an expression of
  its SQL (the text \<open>'a'b'\<close> is a syntax error) or because the value does not fit
  the column and the database enforces the length.  A rejected statement raises the
  driver's error and leaves the store as it was.
\<close>

definition rejected :: error where
  "rejected = OperationalError ''the database rejects the value of version_num''"

definition on_table :: "stmt \<Rightarrow> (string list \<Rightarrow> string list option) \<Rightarrow> store \<Rightarrow> error + store" where
  "on_table st f s =
     (case version_table s of
        None \<Rightarrow> Inl (OperationalError ''no such table: alembic_version'')
      | Some rows \<Rightarrow> Inr (s\<lparr>version_table := f rows, executed := executed s @ [st]\<rparr>))"

fun store_execute :: "(string \<Rightarrow> string option) \<Rightarrow> stmt \<Rightarrow> store \<Rightarrow> error + store" where
  "store_execute reads VersionCreate s =
     (case version_table s of
        None \<Rightarrow> Inr (s\<lparr>version_table := Some [], executed := executed s @ [VersionCreate]\<rparr>)
      | Some rows \<Rightarrow> Inl (OperationalError ''table alembic_version already exists''))"
| "store_execute reads VersionDrop s = on_table VersionDrop (\<lambda>rows. None) s"
| "store_execute reads VersionDelete s = on_table VersionDelete (\<lambda>rows. Some []) s"
| "store_execute reads (VersionInsert lit) s =
     (case reads lit of
        None \<Rightarrow> Inl rejected
      | Some v \<Rightarrow> on_table (VersionInsert lit) (\<lambda>rows. Some (rows @ [v])) s)"
| "store_execute reads (VersionUpdate lit) s =
     (case reads lit of
        None \<Rightarrow> Inl rejected
      | Some v \<Rightarrow> on_table (VersionUpdate lit) (\<lambda>rows. Some (map (\<lambda>r. v) rows)) s)"
| "store_execute reads (Sql q) s = Inr (s\<lparr>executed := executed s @ [Sql q]\<rparr>)"

text \<open>
  A database of standard SQL that enforces the length of the column.  \<open>sql_string\<close>
  reads a string literal: a quote, the characters of the value with every quote of the
  value written twice, a quote; any other text is rejected.  \<open>varchar32\<close> also rejects
  a value of more than 32 characters.  So the literal of a revision without quotes and
  of at most 32 characters is read as that revision, the literal of \<open>a'b\<close> is
  rejected, and the literal of \<open>a''b\<close> is read as \<open>a'b\<close>.
\<close>

fun unquote :: "string \<Rightarrow> string option" where
  "unquote [] = None"
| "unquote [c] = (if c = CHR 0x27 then Some [] else None)"
| "unquote (c # d # cs) =
     (if c = CHR 0x27
      then (if d = CHR 0x27 then map_option (\<lambda>v. CHR 0x27 # v) (unquote cs) else None)
      else map_option (\<lambda>v. c # v) (unquote (d # cs)))"

definition sql_string :: "string \<Rightarrow> string option" where
  "sql_string lit = (case lit of [] \<Rightarrow> None | c # cs \<Rightarrow> if c = CHR 0x27 then unquote cs else None)"

definition varchar32 :: "string \<Rightarrow> string option" where
  "varchar32 lit =
     (case sql_string lit of
        None \<Rightarrow> None
      | Some v \<Rightarrow> if length v \<le> 32 then Some v else None)"

text \<open>
  The version pointer a store holds: the scalar result of \<open>_version.select()\<close>, the
  first row's value, \<open>None\<close> when there is no row (and no table).
\<close>

definition pointer :: "store \<Rightarrow> revision" where
  "pointer s = (case version_table s of None \<Rightarrow> None | Some [] \<Rightarrow> None | Some (v # vs) \<Rightarrow> Some v)"

text \<open>
  What has been written to the output buffer: an annotation (\<open>static_output\<close>) or a
  rendered statement.
\<close>

datatype emitted = Static string | Rendered stmt

text \<open>
  The world a run acts on: the connected store and the output buffer.  \<open>write_calls\<close>
  is a history variable: the arguments \<open>(old, new)\<close> of every call of
  \<open>_update_current_rev\<close> so far, in order.  No definition reads it; it only lets a
  theorem say how often, and with which arguments, the pointer write was invoked.
\<close>

record world =
  db :: store
  out :: "emitted list"
  write_calls :: "(revision \<times> revision) list"

text \<open>
  An action runs in a world and either returns a value or raises; the world it leaves
  is kept in both cases, as a Python exception keeps the effects that came before it.
\<close>

type_synonym 'a action = "world \<Rightarrow> (error + 'a) \<times> world"

definition ret :: "'a \<Rightarrow> 'a action" where
  "ret x w = (Inr x, w)"

definition raise :: "error \<Rightarrow> 'a action" where
  "raise e w = (Inl e, w)"

definition and_then :: "'a action \<Rightarrow> ('a \<Rightarrow> 'b action) \<Rightarrow> 'b action" where
  "and_then m k w = (case m w of (Inl e, w') \<Rightarrow> (Inl e, w') | (Inr x, w') \<Rightarrow> k x w')"

definition when_do :: "bool \<Rightarrow> unit action \<Rightarrow> unit action" where
  "when_do b m = (if b then m else ret ())"

section \<open>Dialect, connection, implementation object\<close>

record dialect =
  dialect_name :: string
  supports_transactional_ddl :: bool

text \<open>
  A connection, with the dialect \<open>configure\<close> takes from it.  \<open>column_value\<close> is how
  the database at its other end reads the text given for \<open>version_num\<close>.
\<close>

record db_connection =
  conn_dialect :: dialect
  column_value :: "string \<Rightarrow> string option"

text \<open>
  What \<open>Context.connection\<close> holds: the connection given to the constructor, or in
  \<open>as_sql\<close> mode the mock engine of \<open>_stdout_connection\<close>, whose executor hands
  every construct to \<open>impl._exec\<close>.
\<close>

datatype bind = Connection db_connection | MockEngine

datatype buffer = Stdout | Buffer nat

text \<open>
  Modelled from the spec: \<open>ddl.DefaultImpl\<close> (module \<open>alembic.ddl\<close> is not among the
  sources).  Section 4.2: in Live mode \<open>execute\<close> forwards each statement to the
  connected store for immediate execution and can fail with a driver-level error; in
  Rendering mode it forwards the statement as rendered text to the output stream and
  never mutates real state; \<open>staticOutput\<close> emits an annotation to the output.
  Section 4.3, step 1: the durability flag is the explicit configuration, or the
  target's default capability when none is given.  The lookup of the implementation
  class by the dialect (\<open>get_by_dialect\<close>) is taken to succeed.
\<close>

record DefaultImpl =
  impl_dialect :: dialect
  impl_connection :: "db_connection option"
  impl_as_sql :: bool
  transactional_ddl :: bool
  impl_output_buffer :: buffer

definition new_impl :: "dialect \<Rightarrow> db_connection option \<Rightarrow> bool \<Rightarrow> bool option \<Rightarrow> buffer \<Rightarrow> DefaultImpl" where
  "new_impl d c sql tddl buf =
     \<lparr>impl_dialect = d, impl_connection = c, impl_as_sql = sql,
      transactional_ddl = (case tddl of None \<Rightarrow> supports_transactional_ddl d | Some b \<Rightarrow> b),
      impl_output_buffer = buf\<rparr>"

definition static_output :: "DefaultImpl \<Rightarrow> string \<Rightarrow> unit action" where
  "static_output i t w = (Inr (), w\<lparr>out := out w @ [Static t]\<rparr>)"

definition connection_execute :: "db_connection option \<Rightarrow> stmt \<Rightarrow> unit action" where
  "connection_execute c st w =
     (case c of
        None \<Rightarrow> (Inl UnboundExecutionError, w)
      | Some conn \<Rightarrow>
          (case store_execute (column_value conn) st (db w) of
             Inl e \<Rightarrow> (Inl e, w)
           | Inr s \<Rightarrow> (Inr (), w\<lparr>db := s\<rparr>)))"

definition impl_exec :: "DefaultImpl \<Rightarrow> stmt \<Rightarrow> unit action" where
  "impl_exec i st =
     (if impl_as_sql i then (\<lambda>w. (Inr (), w\<lparr>out := out w @ [Rendered st]\<rparr>))
      else connection_execute (impl_connection i) st)"

section \<open>Migration steps\<close>

text \<open>
  A migration function (\<open>change\<close>): its \<open>__name__\<close>, the statements it issues through
  the implementation object when called, and the error it raises after them, if any.
  The functions are the caller's code; what is taken of them is that they act through
  the implementation object only and issue statements of their own, none on the table
  \<open>alembic_version\<close>.  The keyword arguments \<open>**kw\<close> that \<open>run_migrations\<close> hands
  to each function are part of the function here.

  The sequencer \<open>_migrations_fn\<close> yields triples \<open>(change, prev_rev, rev)\<close>; it is a
  function from the current revision to the finite list of its steps.
\<close>

record change =
  change_name :: string
  change_stmts :: "string list"
  change_raises :: "error option"

type_synonym step = "change \<times> revision \<times> revision"

fun exec_all :: "DefaultImpl \<Rightarrow> stmt list \<Rightarrow> unit action" where
  "exec_all i [] = ret ()"
| "exec_all i (st # sts) = and_then (impl_exec i st) (\<lambda>u. exec_all i sts)"

definition call_change :: "DefaultImpl \<Rightarrow> change \<Rightarrow> unit action" where
  "call_change i c =
     and_then (exec_all i (map Sql (change_stmts c)))
       (\<lambda>u. case change_raises c of None \<Rightarrow> ret () | Some e \<Rightarrow> raise e)"

section \<open>The context\<close>

record Context =
  dialect :: dialect
  script :: "nat option"
  connection :: "bind option"
  migrations_fn :: "revision \<Rightarrow> step list"
  as_sql :: bool
  output_buffer :: buffer
  start_from_rev :: revision
  impl :: DefaultImpl

text \<open>\<open>Context.__init__\<close>\<close>

definition new_Context ::
  "dialect \<Rightarrow> nat option \<Rightarrow> db_connection option \<Rightarrow> (revision \<Rightarrow> step list) \<Rightarrow> bool \<Rightarrow>
   buffer option \<Rightarrow> bool option \<Rightarrow> revision \<Rightarrow> Context" where
  "new_Context d scr conn f sql buf tddl starting =
     (let ob = (case buf of None \<Rightarrow> Stdout | Some b \<Rightarrow> b) in
      \<lparr>dialect = d, script = scr,
       connection = (if sql then Some MockEngine else map_option Connection conn),
       migrations_fn = f, as_sql = sql, output_buffer = ob,
       start_from_rev = starting,
       impl = new_impl d conn sql tddl ob\<rparr>)"

text \<open>
  \<open>_version.create(bind, checkfirst)\<close>, \<open>_version.drop(bind)\<close> and
  \<open>bind.scalar(_version.select())\<close>: on the mock engine the construct goes to
  \<open>impl._exec\<close> (\<open>dump\<close> in \<open>_stdout_connection\<close>), and nothing can be queried; on a
  connection the store executes it, the creation only when the table is absent if
  \<open>checkfirst\<close> is set.
\<close>

definition version_create :: "Context \<Rightarrow> bool \<Rightarrow> unit action" where
  "version_create ctx checkfirst =
     (case connection ctx of
        None \<Rightarrow> raise UnboundExecutionError
      | Some MockEngine \<Rightarrow> impl_exec (impl ctx) VersionCreate
      | Some (Connection c) \<Rightarrow>
          (\<lambda>w. if checkfirst \<and> version_table (db w) \<noteq> None then (Inr (), w)
               else connection_execute (Some c) VersionCreate w))"

definition version_drop :: "Context \<Rightarrow> unit action" where
  "version_drop ctx =
     (case connection ctx of
        None \<Rightarrow> raise UnboundExecutionError
      | Some MockEngine \<Rightarrow> impl_exec (impl ctx) VersionDrop
      | Some (Connection c) \<Rightarrow> connection_execute (Some c) VersionDrop)"

definition version_scalar :: "Context \<Rightarrow> revision action" where
  "version_scalar ctx =
     (case connection ctx of
        None \<Rightarrow> raise UnboundExecutionError
      | Some MockEngine \<Rightarrow> raise (Exception ''the mock engine returns no results'')
      | Some (Connection c) \<Rightarrow>
          (\<lambda>w. case version_table (db w) of
                 None \<Rightarrow> (Inl (OperationalError ''no such table: alembic_version''), w)
               | Some rows \<Rightarrow> (Inr (pointer (db w)), w)))"

text \<open>\<open>Context._current_rev\<close>\<close>

definition current_rev :: "Context \<Rightarrow> revision action" where
  "current_rev ctx =
     (if as_sql ctx then ret (start_from_rev ctx)
      else and_then
        (if truthy (start_from_rev ctx)
         then raise (CommandError
           ''Can't specify current_rev to context when using a database connection'')
         else version_create ctx True)
        (\<lambda>u. version_scalar ctx))"

text \<open>
  \<open>Context._update_current_rev\<close>.  \<open>called\<close> records the call in the history
  variable; the rest is the method.
\<close>

definition called :: "revision \<Rightarrow> revision \<Rightarrow> unit action" where
  "called old new w = (Inr (), w\<lparr>write_calls := write_calls w @ [(old, new)]\<rparr>)"

definition update_current_rev :: "Context \<Rightarrow> revision \<Rightarrow> revision \<Rightarrow> unit action" where
  "update_current_rev ctx old new =
     and_then (called old new) (\<lambda>u.
       if old = new then ret ()
       else case new of
         None \<Rightarrow> impl_exec (impl ctx) VersionDelete
       | Some n \<Rightarrow>
           (if old = None then impl_exec (impl ctx) (VersionInsert (quoted n))
            else impl_exec (impl ctx) (VersionUpdate (quoted n))))"

text \<open>
  The loop of \<open>Context.run_migrations\<close> (the calls of \<open>log.info\<close> are left out).  Its locals \<open>current_rev\<close> and \<open>rev\<close>
  both start as \<open>False\<close> and are both set in the first iteration, so the loop state
  is \<open>None\<close> before the first step and \<open>Some (current_rev, rev)\<close> after it.
\<close>

definition running_line :: "change \<Rightarrow> revision \<Rightarrow> revision \<Rightarrow> string" where
  "running_line chg prev_rev rv =
     ''-- Running '' @ change_name chg @ '' '' @ str_of prev_rev @ '' -> '' @ str_of rv"

fun run_steps ::
  "Context \<Rightarrow> (revision \<times> revision) option \<Rightarrow> step list \<Rightarrow> (revision \<times> revision) option action" where
  "run_steps ctx st [] = ret st"
| "run_steps ctx st ((chg, prev_rev, rv) # rest) =
     and_then (when_do (st = None \<and> as_sql ctx \<and> \<not> truthy prev_rev) (version_create ctx False)) (\<lambda>u.
     and_then (when_do (as_sql ctx) (static_output (impl ctx) (running_line chg prev_rev rv))) (\<lambda>u.
     and_then (call_change (impl ctx) chg) (\<lambda>u.
     and_then (when_do (\<not> transactional_ddl (impl ctx)) (update_current_rev ctx prev_rev rv)) (\<lambda>u.
     run_steps ctx (Some (case st of None \<Rightarrow> prev_rev | Some (cur, r) \<Rightarrow> cur, rv)) rest))))"

text \<open>\<open>Context.run_migrations\<close>\<close>

definition run_migrations :: "Context \<Rightarrow> unit action" where
  "run_migrations ctx =
     and_then (when_do (as_sql ctx \<and> transactional_ddl (impl ctx))
                 (static_output (impl ctx) ''BEGIN;'')) (\<lambda>u.
     and_then (current_rev ctx) (\<lambda>start.
     and_then (run_steps ctx None (migrations_fn ctx start)) (\<lambda>st.
     and_then (case st of
                 None \<Rightarrow> ret ()
               | Some (cur, rv) \<Rightarrow>
                   and_then (when_do (transactional_ddl (impl ctx)) (update_current_rev ctx cur rv)) (\<lambda>u.
                   when_do (as_sql ctx \<and> \<not> truthy rv) (version_drop ctx))) (\<lambda>u.
     when_do (as_sql ctx \<and> transactional_ddl (impl ctx))
       (static_output (impl ctx) ''COMMIT;'')))))"

section \<open>The options registry and \<open>configure\<close>\<close>

text \<open>
  The module globals \<open>_context_opts\<close>, \<open>_context\<close> and \<open>_script\<close>.  The dictionary
  \<open>_context_opts\<close> is read by \<open>configure\<close> through \<open>get\<close> (a missing key reads as
  \<open>None\<close>) and through \<open>opts['fn']\<close> (a missing key raises \<open>KeyError\<close>), so each
  key is a field that is \<open>None\<close> while the key is absent.
\<close>

record context_opts =
  opt_fn :: "(revision \<Rightarrow> step list) option"
  opt_as_sql :: "bool option"
  opt_transactional_ddl :: "bool option"
  opt_output_buffer :: "buffer option"
  opt_starting_rev :: "string option"
  opt_destination_rev :: "string option"
  opt_tag :: "string option"

record globals =
  g_context_opts :: context_opts
  g_context :: "Context option"
  g_script :: "nat option"

definition empty_opts :: context_opts where
  "empty_opts = \<lparr>opt_fn = None, opt_as_sql = None, opt_transactional_ddl = None,
     opt_output_buffer = None, opt_starting_rev = None, opt_destination_rev = None,
     opt_tag = None\<rparr>"

text \<open>\<open>_clear\<close>\<close>

definition clear :: "globals \<Rightarrow> globals" where
  "clear g = g\<lparr>g_context := None, g_script := None, g_context_opts := empty_opts\<rparr>"

definition get_tag_argument :: "globals \<Rightarrow> string option" where
  "get_tag_argument g = opt_tag (g_context_opts g)"

definition requires_connection :: "globals \<Rightarrow> bool" where
  "requires_connection g = (\<not> (case opt_as_sql (g_context_opts g) of None \<Rightarrow> False | Some b \<Rightarrow> b))"

definition get_context :: "globals \<Rightarrow> error + Context" where
  "get_context g =
     (case g_context g of
        None \<Rightarrow> Inl (Exception ''No context has been configured yet.'')
      | Some c \<Rightarrow> Inr c)"

record configure_args =
  arg_connection :: "db_connection option"
  arg_url :: "string option"
  arg_dialect_name :: "string option"
  arg_transactional_ddl :: "bool option"
  arg_output_buffer :: "buffer option"
  arg_starting_rev :: "string option"
  arg_tag :: "string option"

text \<open>
  The first part of \<open>configure\<close>: the dialect of the connection, of the url or of the
  dialect name.  \<open>make_url\<close> stands for \<open>sqla_url.make_url(u).get_dialect()()\<close>, which
  is SQLAlchemy's and may raise.
\<close>

definition resolve_dialect :: "(string \<Rightarrow> error + dialect) \<Rightarrow> configure_args \<Rightarrow> error + dialect" where
  "resolve_dialect make_url a =
     (case arg_connection a of
        Some c \<Rightarrow> Inr (conn_dialect c)
      | None \<Rightarrow>
          if truthy (arg_url a) then make_url (str_of (arg_url a))
          else if truthy (arg_dialect_name a) then make_url (str_of (arg_dialect_name a) @ ''://'')
          else Inl (Exception ''Connection, url, or dialect_name is required.''))"

text \<open>The options after the four conditional stores of \<open>configure\<close>.\<close>

definition store_opts :: "configure_args \<Rightarrow> context_opts \<Rightarrow> context_opts" where
  "store_opts a opts =
     (let o1 = (if arg_transactional_ddl a \<noteq> None
                then opts\<lparr>opt_transactional_ddl := arg_transactional_ddl a\<rparr> else opts);
          o2 = (if arg_output_buffer a \<noteq> None
                then o1\<lparr>opt_output_buffer := arg_output_buffer a\<rparr> else o1);
          o3 = (if truthy (arg_starting_rev a)
                then o2\<lparr>opt_starting_rev := arg_starting_rev a\<rparr> else o2);
          o4 = (if truthy (arg_tag a) then o3\<lparr>opt_tag := arg_tag a\<rparr> else o3)
      in o4)"

text \<open>
  \<open>configure\<close>: the result is the error raised, if any, and the globals it leaves
  (the options are stored before \<open>opts['fn']\<close> can raise).
\<close>

definition configure ::
  "(string \<Rightarrow> error + dialect) \<Rightarrow> configure_args \<Rightarrow> globals \<Rightarrow> error option \<times> globals" where
  "configure make_url a g =
     (case resolve_dialect make_url a of
        Inl e \<Rightarrow> (Some e, g)
      | Inr d \<Rightarrow>
          (let opts = store_opts a (g_context_opts g);
               g1 = g\<lparr>g_context_opts := opts\<rparr>
           in case opt_fn opts of
                None \<Rightarrow> (Some (KeyError ''fn''), g1)
              | Some f \<Rightarrow>
                  (None, g1\<lparr>g_context := Some (new_Context d (g_script g) (arg_connection a) f
                      (case opt_as_sql opts of None \<Rightarrow> False | Some b \<Rightarrow> b)
                      (opt_output_buffer opts)
                      (opt_transactional_ddl opts)
                      (opt_starting_rev opts))\<rparr>)))"

text \<open>The module-level \<open>run_migrations\<close>: \<open>get_context().run_migrations(**kw)\<close>.\<close>

definition run_configured :: "globals \<Rightarrow> unit action" where
  "run_configured g =
     (case get_context g of Inl e \<Rightarrow> raise e | Inr ctx \<Rightarrow> run_migrations ctx)"

section \<open>Notions used in the statements\<close>

text \<open>
  The two kinds of context the constructor builds: in Rendering mode (\<open>as_sql\<close>) the
  bind is the mock engine and the implementation object renders; in Live mode both hold
  the connection.
\<close>

definition rendering :: "Context \<Rightarrow> bool" where
  "rendering ctx = (as_sql ctx \<and> impl_as_sql (impl ctx) \<and> connection ctx = Some MockEngine)"

definition live :: "Context \<Rightarrow> bool" where
  "live ctx = (\<not> as_sql ctx \<and> \<not> impl_as_sql (impl ctx) \<and>
     (\<exists>c. connection ctx = Some (Connection c) \<and> impl_connection (impl ctx) = Some c))"

text \<open>The reading of values by the database a context is connected to.\<close>

definition db_reads :: "Context \<Rightarrow> string \<Rightarrow> string option" where
  "db_reads ctx = (case impl_connection (impl ctx) of None \<Rightarrow> (\<lambda>lit. None) | Some c \<Rightarrow> column_value c)"

text \<open>
  One pointer write \<open>(old, new)\<close>: the statements it issues (none, or one) and what
  they do to the rows of the table on a database that reads values as \<open>rd\<close> says:
  \<open>None\<close> when the database rejects the statement.  \<open>accepted\<close> says that it does not;
  \<open>calls_rows\<close> is the effect of a list of writes that are all accepted.
\<close>

definition write_stmts :: "revision \<Rightarrow> revision \<Rightarrow> stmt list" where
  "write_stmts old new =
     (if old = new then []
      else case new of
        None \<Rightarrow> [VersionDelete]
      | Some n \<Rightarrow> if old = None then [VersionInsert (quoted n)] else [VersionUpdate (quoted n)])"

definition write_rows ::
  "(string \<Rightarrow> string option) \<Rightarrow> revision \<Rightarrow> revision \<Rightarrow> string list \<Rightarrow> string list option" where
  "write_rows rd old new rows =
     (if old = new then Some rows
      else case new of
        None \<Rightarrow> Some []
      | Some n \<Rightarrow>
          (case rd (quoted n) of
             None \<Rightarrow> None
           | Some v \<Rightarrow> Some (if old = None then rows @ [v] else map (\<lambda>r. v) rows)))"


fun calls_rows ::
  "(string \<Rightarrow> string option) \<Rightarrow> (revision \<times> revision) list \<Rightarrow> string list \<Rightarrow> string list option" where
  "calls_rows rd [] rows = Some rows"
| "calls_rows rd ((old, new) # calls) rows =
     (case write_rows rd old new rows of
        None \<Rightarrow> None
      | Some rows' \<Rightarrow> calls_rows rd calls rows')"

text \<open>
  One step that succeeds, with transactional durability (\<open>tx\<close>) or without: the
  statements it issues, the pointer writes called; the loop state after a list of steps.
\<close>

definition step_stmts :: "bool \<Rightarrow> step \<Rightarrow> stmt list" where
  "step_stmts tx s = map Sql (change_stmts (fst s)) @ (if tx then [] else write_stmts (fst (snd s)) (snd (snd s)))"

definition step_calls :: "bool \<Rightarrow> step list \<Rightarrow> (revision \<times> revision) list" where
  "step_calls tx steps = (if tx then [] else map snd steps)"

definition advance :: "(revision \<times> revision) option \<Rightarrow> step list \<Rightarrow> (revision \<times> revision) option" where
  "advance st steps =
     (case steps of [] \<Rightarrow> st
      | s # rest \<Rightarrow> Some (case st of None \<Rightarrow> fst (snd s) | Some (cur, r) \<Rightarrow> cur, snd (snd (last steps))))"

text \<open>
  What a step that succeeds writes to the output in Rendering mode, and the creation of
  the pointer table that precedes the first step when its \<open>prev_rev\<close> is falsy.
\<close>

definition block :: "bool \<Rightarrow> step \<Rightarrow> emitted list" where
  "block tx s = Static (running_line (fst s) (fst (snd s)) (snd (snd s))) # map Rendered (step_stmts tx s)"

definition create_first :: "(revision \<times> revision) option \<Rightarrow> step list \<Rightarrow> emitted list" where
  "create_first st steps =
     (case steps of [] \<Rightarrow> []
      | s # rest \<Rightarrow> if st = None \<and> \<not> truthy (fst (snd s)) then [Rendered VersionCreate] else [])"

text \<open>
  The pointer statements (delete, insert, update of the version row) among the
  statements that have reached the sink of a context: the statements rendered to the
  output in Rendering mode, those the store has executed in Live mode.
\<close>

fun is_pointer_write :: "stmt \<Rightarrow> bool" where
  "is_pointer_write VersionDelete = True"
| "is_pointer_write (VersionInsert lit) = True"
| "is_pointer_write (VersionUpdate lit) = True"
| "is_pointer_write st = False"

fun rendered_stmts :: "emitted list \<Rightarrow> stmt list" where
  "rendered_stmts [] = []"
| "rendered_stmts (Static t # es) = rendered_stmts es"
| "rendered_stmts (Rendered st # es) = st # rendered_stmts es"

definition pointer_writes_issued :: "Context \<Rightarrow> world \<Rightarrow> stmt list" where
  "pointer_writes_issued ctx w =
     filter is_pointer_write (if as_sql ctx then rendered_stmts (out w) else executed (db w))"

text \<open>
  After the loop: the pointer write called with transactional durability, and the
  removal of the pointer table rendered when the last \<open>rev\<close> is falsy.
\<close>

definition final_write :: "bool \<Rightarrow> step list \<Rightarrow> (revision \<times> revision) list" where
  "final_write tx steps =
     (case advance None steps of None \<Rightarrow> [] | Some (a, b) \<Rightarrow> if tx then [(a, b)] else [])"

definition final_drop :: "step list \<Rightarrow> stmt list" where
  "final_drop steps =
     (case advance None steps of None \<Rightarrow> [] | Some (a, b) \<Rightarrow> if truthy b then [] else [VersionDrop])"

text \<open>The rows of the pointer table, none when there is no table.\<close>

definition table_rows :: "store \<Rightarrow> string list" where
  "table_rows s = (case version_table s of None \<Rightarrow> [] | Some rows \<Rightarrow> rows)"


definition first_row :: "string list \<Rightarrow> revision" where
  "first_row rows = (case rows of [] \<Rightarrow> None | v # vs \<Rightarrow> Some v)"




text \<open>A sequence of \<open>configure\<close> calls, each on the globals the one before has left.\<close>

fun configures :: "(string \<Rightarrow> error + dialect) \<Rightarrow> configure_args list \<Rightarrow> globals \<Rightarrow> globals" where
  "configures make_url [] g = g"
| "configures make_url (a # as) g = configures make_url as (snd (configure make_url a g))"


text \<open>Concrete inputs, for the instances proved after the theorems.\<close>

definition pg :: dialect where
  "pg = \<lparr>dialect_name = ''postgresql'', supports_transactional_ddl = True\<rparr>"

definition pg_conn :: db_connection where
  "pg_conn = \<lparr>conn_dialect = pg, column_value = varchar32\<rparr>"



definition upgrade :: "string \<Rightarrow> change" where
  "upgrade q = \<lparr>change_name = ''upgrade'', change_stmts = [q], change_raises = None\<rparr>"


definition failing :: "string \<Rightarrow> change" where
  "failing q = \<lparr>change_name = ''upgrade'', change_stmts = [q],
     change_raises = Some (MigrationError ''boom'')\<rparr>"

definition two_steps :: "revision \<Rightarrow> step list" where
  "two_steps start =
     [(upgrade ''CREATE TABLE t1'', None, Some ''a1''),
      (upgrade ''CREATE TABLE t2'', Some ''a1'', Some ''b2'')]"

definition fresh :: world where
  "fresh = \<lparr>db = \<lparr>version_table = None, executed = []\<rparr>, out = [], write_calls = []\<rparr>"

definition at_rev :: "string \<Rightarrow> world" where
  "at_rev v = \<lparr>db = \<lparr>version_table = Some [v], executed = []\<rparr>, out = [], write_calls = []\<rparr>"

definition failing_steps :: "revision \<Rightarrow> step list" where
  "failing_steps start =
     [(upgrade ''CREATE TABLE t1'', None, Some ''a1''),
      (failing ''CREATE TABLE t2'', Some ''a1'', Some ''b2''),
      (upgrade ''CREATE TABLE t3'', Some ''b2'', Some ''c3'')]"




definition no_url :: "string \<Rightarrow> error + dialect" where
  "no_url u = Inl (Exception ''Could not parse rfc1738 URL'')"

definition live_registry :: globals where
  "live_registry = \<lparr>g_context_opts = empty_opts\<lparr>opt_fn := Some two_steps\<rparr>,
     g_context = None, g_script = Some 0\<rparr>"

definition plain_args :: configure_args where
  "plain_args = \<lparr>arg_connection = Some pg_conn, arg_url = None, arg_dialect_name = None,
     arg_transactional_ddl = None, arg_output_buffer = None, arg_starting_rev = None,
     arg_tag = None\<rparr>"

definition conflict_args :: configure_args where
  "conflict_args = plain_args\<lparr>arg_starting_rev := Some ''a1''\<rparr>"

definition setting_args :: configure_args where
  "setting_args = plain_args\<lparr>arg_transactional_ddl := Some False,
     arg_output_buffer := Some (Buffer 7), arg_tag := Some ''nightly''\<rparr>"

definition configured :: globals where
  "configured = snd (configure no_url setting_args live_registry)"

definition reconfigured :: globals where
  "reconfigured = snd (configure no_url plain_args (configures no_url [plain_args] configured))"

section \<open>Lemmas on the actions\<close>

lemma and_then_ret: "and_then (ret x) k = k x"
  by (rule ext) (simp add: and_then_def ret_def)

lemma case_ret: "(case m of (Inl e, w') \<Rightarrow> (Inl e, w') | (Inr x, w') \<Rightarrow> ret x w') = m"
  by (cases m) (simp add: ret_def split: sum.splits)

lemma and_then_assoc: "and_then (and_then m k) h = and_then m (\<lambda>x. and_then (k x) h)"
  by (rule ext) (simp add: and_then_def split: prod.splits sum.splits)

lemma new_Context_rendering: "rendering (new_Context d scr conn f True buf tddl starting)"
  by (simp add: rendering_def new_Context_def new_impl_def Let_def)

lemma new_Context_live: "live (new_Context d scr (Some c) f False buf tddl starting)"
  by (simp add: live_def new_Context_def new_impl_def Let_def)

subsection \<open>Rendering\<close>

lemma exec_all_rendering:
  "impl_as_sql i \<Longrightarrow> exec_all i sts w = (Inr (), w\<lparr>out := out w @ map Rendered sts\<rparr>)"
proof (induction sts arbitrary: w)
  case Nil
  then show ?case by (simp add: ret_def)
next
  case (Cons st sts)
  have "impl_exec i st w = (Inr (), w\<lparr>out := out w @ [Rendered st]\<rparr>)"
    using Cons.prems by (simp add: impl_exec_def)
  then show ?case
    using Cons.IH [OF Cons.prems] by (simp add: and_then_def)
qed

lemma update_current_rev_rendering:
  "rendering ctx \<Longrightarrow> update_current_rev ctx old new w =
     (Inr (), w\<lparr>out := out w @ map Rendered (write_stmts old new),
               write_calls := write_calls w @ [(old, new)]\<rparr>)"
  by (simp add: rendering_def update_current_rev_def called_def and_then_def ret_def
      impl_exec_def write_stmts_def split: option.splits)

lemma call_change_rendering:
  "impl_as_sql i \<Longrightarrow> call_change i c w =
     ((case change_raises c of None \<Rightarrow> Inr () | Some e \<Rightarrow> Inl e),
      w\<lparr>out := out w @ map Rendered (map Sql (change_stmts c))\<rparr>)"
  by (simp add: call_change_def and_then_def exec_all_rendering ret_def raise_def
      split: option.splits)

lemma run_steps_append:
  "run_steps ctx st (pre @ post) =
     and_then (run_steps ctx st pre) (\<lambda>st'. run_steps ctx st' post)"
proof (induction pre arbitrary: st)
  case Nil
  then show ?case by (simp add: and_then_ret)
next
  case (Cons s pre)
  obtain c p r where s: "s = (c, p, r)" by (cases s)
  show ?case
    by (simp add: s Cons.IH and_then_assoc)
qed

lemma run_step_rendering:
  assumes "rendering ctx"
  shows "run_steps ctx st [(c, p, r)] w =
     (case change_raises c of
        None \<Rightarrow> (Inr (advance st [(c, p, r)]),
                  w\<lparr>out := out w @ create_first st [(c, p, r)] @ block (transactional_ddl (impl ctx)) (c, p, r),
                    write_calls := write_calls w @ step_calls (transactional_ddl (impl ctx)) [(c, p, r)]\<rparr>)
      | Some e \<Rightarrow> (Inl e,
                  w\<lparr>out := out w @ create_first st [(c, p, r)] @
                       Static (running_line c p r) # map Rendered (map Sql (change_stmts c))\<rparr>))"
  using assms
  by (simp add: rendering_def and_then_def when_do_def version_create_def impl_exec_def
      static_output_def call_change_rendering update_current_rev_rendering ret_def
      advance_def create_first_def block_def step_calls_def step_stmts_def
      split: option.splits)


lemma advance_Cons: "advance (advance st [s]) rest = advance st (s # rest)"
  by (cases rest) (auto simp: advance_def split: option.splits)

lemma create_first_later: "create_first (advance st [s]) rest = []"
  by (cases rest) (auto simp: create_first_def advance_def)

lemma create_first_Cons:
  "create_first st (s # rest) =
     (if st = None \<and> \<not> truthy (fst (snd s)) then [Rendered VersionCreate] else [])"
  by (simp add: create_first_def)

lemma step_calls_Cons: "step_calls tx [s] @ step_calls tx rest = step_calls tx (s # rest)"
  by (simp add: step_calls_def)

lemma run_steps_rendering:
  assumes r: "rendering ctx" and ok: "\<forall>s\<in>set steps. change_raises (fst s) = None"
  shows "run_steps ctx st steps w =
     (Inr (advance st steps),
      w\<lparr>out := out w @ create_first st steps @ concat (map (block (transactional_ddl (impl ctx))) steps),
        write_calls := write_calls w @ step_calls (transactional_ddl (impl ctx)) steps\<rparr>)"
  using ok
proof (induction steps arbitrary: st w)
  case Nil
  then show ?case
    by (simp add: ret_def advance_def create_first_def step_calls_def)
next
  case (Cons s rest)
  obtain c p q where s: "s = (c, p, q)" by (cases s)
  have c: "change_raises c = None" using Cons.prems by (simp add: s)
  have rest: "\<forall>s\<in>set rest. change_raises (fst s) = None" using Cons.prems by simp
  have "run_steps ctx st (s # rest) w =
        and_then (run_steps ctx st [s]) (\<lambda>st'. run_steps ctx st' rest) w"
    using run_steps_append [of ctx st "[s]" rest] by simp
  also have "\<dots> = run_steps ctx (advance st [s]) rest
       (w\<lparr>out := out w @ create_first st [s] @ block (transactional_ddl (impl ctx)) s,
          write_calls := write_calls w @ step_calls (transactional_ddl (impl ctx)) [s]\<rparr>)"
    using run_step_rendering [OF r, of st c p q w] c by (simp add: s and_then_def)
  finally show ?case
    using Cons.IH [OF rest]
    by (simp add: advance_Cons create_first_later step_calls_Cons create_first_Cons)
qed

subsection \<open>Live\<close>

lemma store_surj: "version_table s = Some rows \<Longrightarrow> \<lparr>version_table = Some rows, executed = executed s\<rparr> = s"
  by (cases s) simp




lemma exec_all_live:
  assumes "\<not> impl_as_sql i" and "impl_connection i = Some c"
  shows "exec_all i (map Sql qs) w =
     (Inr (), w\<lparr>db := (db w)\<lparr>executed := executed (db w) @ map Sql qs\<rparr>\<rparr>)"
proof (induction qs arbitrary: w)
  case Nil
  then show ?case by (simp add: ret_def)
next
  case (Cons q qs)
  have "impl_exec i (Sql q) w = (Inr (), w\<lparr>db := (db w)\<lparr>executed := executed (db w) @ [Sql q]\<rparr>\<rparr>)"
    using assms by (simp add: impl_exec_def connection_execute_def)
  then show ?case
    using Cons.IH by (simp add: and_then_def)
qed

lemma call_change_live:
  assumes "\<not> impl_as_sql i" and "impl_connection i = Some c"
  shows "call_change i chg w =
     ((case change_raises chg of None \<Rightarrow> Inr () | Some e \<Rightarrow> Inl e),
      w\<lparr>db := (db w)\<lparr>executed := executed (db w) @ map Sql (change_stmts chg)\<rparr>\<rparr>)"
  by (simp add: call_change_def and_then_def exec_all_live [OF assms] ret_def raise_def
      split: option.splits)

lemma update_current_rev_live:
  assumes "live ctx" and "version_table (db w) = Some rows"
  shows "update_current_rev ctx old new w =
     (case write_rows (db_reads ctx) old new rows of
        None \<Rightarrow> (Inl rejected, w\<lparr>write_calls := write_calls w @ [(old, new)]\<rparr>)
      | Some rows' \<Rightarrow>
          (Inr (), w\<lparr>db := \<lparr>version_table = Some rows',
                              executed = executed (db w) @ write_stmts old new\<rparr>,
                    write_calls := write_calls w @ [(old, new)]\<rparr>))"
  using assms
  by (auto simp: live_def db_reads_def update_current_rev_def called_def and_then_def ret_def
      impl_exec_def connection_execute_def on_table_def write_stmts_def write_rows_def
      store_surj split: option.splits)

lemma calls_rows_append:
  "calls_rows rd (xs @ ys) rows =
     (case calls_rows rd xs rows of None \<Rightarrow> None | Some rows' \<Rightarrow> calls_rows rd ys rows')"
  by (induction xs arbitrary: rows) (auto split: option.splits)



lemma run_step_live:
  assumes "live ctx" and "version_table (db w) = Some rows"
    and "change_raises c = None"
    and "calls_rows (db_reads ctx) (step_calls (transactional_ddl (impl ctx)) [(c, p, r)]) rows = Some rows'"
  shows "run_steps ctx st [(c, p, r)] w =
     (Inr (advance st [(c, p, r)]),
      w\<lparr>db := \<lparr>version_table = Some rows',
                executed = executed (db w) @ step_stmts (transactional_ddl (impl ctx)) (c, p, r)\<rparr>,
        write_calls := write_calls w @ step_calls (transactional_ddl (impl ctx)) [(c, p, r)]\<rparr>)"
proof -
  obtain cn where cn: "\<not> impl_as_sql (impl ctx)" "impl_connection (impl ctx) = Some cn" "\<not> as_sql ctx"
    using assms(1) by (auto simp: live_def)
  let ?w1 = "w\<lparr>db := \<lparr>version_table = Some rows,
                        executed = executed (db w) @ map Sql (change_stmts c)\<rparr>\<rparr>"
  have e1: "(db w)\<lparr>executed := executed (db w) @ map Sql (change_stmts c)\<rparr> =
            \<lparr>version_table = Some rows, executed = executed (db w) @ map Sql (change_stmts c)\<rparr>"
    using assms(2) by (cases "db w") simp
  have cc: "call_change (impl ctx) c w = (Inr (), ?w1)"
    using call_change_live [OF cn(1) cn(2), of c w] e1 assms(3) by simp
  show ?thesis
  proof (cases "transactional_ddl (impl ctx)")
    case True
    then show ?thesis
      using cn(3) assms(4)
      by (simp add: and_then_def when_do_def cc ret_def advance_def step_calls_def step_stmts_def
          split: option.splits)
  next
    case False
    have wr: "write_rows (db_reads ctx) p r rows = Some rows'"
      using assms(4) False by (simp add: step_calls_def split: option.splits)
    have up: "update_current_rev ctx p r ?w1 =
        (Inr (), ?w1\<lparr>db := \<lparr>version_table = Some rows',
                            executed = executed (db ?w1) @ write_stmts p r\<rparr>,
                  write_calls := write_calls ?w1 @ [(p, r)]\<rparr>)"
      using update_current_rev_live [OF assms(1), of ?w1 rows p r] wr by simp
    show ?thesis
      using cn(3) False
      by (simp add: and_then_def when_do_def cc up ret_def advance_def step_calls_def
          step_stmts_def split: option.splits)
  qed
qed


lemma step_calls_split:
  "step_calls tx (s # rest) = step_calls tx [s] @ step_calls tx rest"
  by (simp add: step_calls_def)

lemma run_steps_live:
  assumes l: "live ctx" and ok: "\<forall>s\<in>set steps. change_raises (fst s) = None"
    and t: "version_table (db w) = Some rows"
    and acc: "calls_rows (db_reads ctx) (step_calls (transactional_ddl (impl ctx)) steps) rows = Some rows'"
  shows "run_steps ctx st steps w =
     (Inr (advance st steps),
      w\<lparr>db := \<lparr>version_table = Some rows',
                executed = executed (db w) @ concat (map (step_stmts (transactional_ddl (impl ctx))) steps)\<rparr>,
        write_calls := write_calls w @ step_calls (transactional_ddl (impl ctx)) steps\<rparr>)"
  using ok t acc
proof (induction steps arbitrary: st w rows)
  case Nil
  then show ?case
    by (auto simp: ret_def advance_def step_calls_def store_surj split: if_splits)
next
  case (Cons s rest)
  obtain c p q where s: "s = (c, p, q)" by (cases s)
  have c: "change_raises c = None" using Cons.prems by (simp add: s)
  have rest: "\<forall>s\<in>set rest. change_raises (fst s) = None" using Cons.prems by simp
  let ?tx = "transactional_ddl (impl ctx)"
  obtain r1 where r1: "calls_rows (db_reads ctx) (step_calls ?tx [s]) rows = Some r1"
      and r2: "calls_rows (db_reads ctx) (step_calls ?tx rest) r1 = Some rows'"
    using Cons.prems(3)
    by (simp only: step_calls_split [of ?tx s rest] calls_rows_append) (auto split: option.splits)
  let ?w1 = "w\<lparr>db := \<lparr>version_table = Some r1,
                        executed = executed (db w) @ step_stmts ?tx s\<rparr>,
                write_calls := write_calls w @ step_calls ?tx [s]\<rparr>"
  have t1: "version_table (db ?w1) = Some r1" by simp
  have "run_steps ctx st (s # rest) w =
        and_then (run_steps ctx st [s]) (\<lambda>st'. run_steps ctx st' rest) w"
    using run_steps_append [of ctx st "[s]" rest] by simp
  also have "\<dots> = run_steps ctx (advance st [s]) rest ?w1"
    using run_step_live [OF l Cons.prems(2) c r1 [unfolded s], of st] by (simp add: s and_then_def)
  finally show ?case
    using Cons.IH [OF rest t1 r2]
    by (simp add: advance_Cons step_calls_Cons)
qed

lemma current_rev_rendering:
  "rendering ctx \<Longrightarrow> current_rev ctx w = (Inr (start_from_rev ctx), w)"
  by (simp add: rendering_def current_rev_def ret_def)

lemma current_rev_live:
  assumes "live ctx" and "\<not> truthy (start_from_rev ctx)"
  shows "current_rev ctx w =
     (Inr (pointer (db w)),
      (case version_table (db w) of
         None \<Rightarrow> w\<lparr>db := \<lparr>version_table = Some [], executed = executed (db w) @ [VersionCreate]\<rparr>\<rparr>
       | Some rows \<Rightarrow> w))"
proof -
  obtain cn where cn: "\<not> as_sql ctx" "connection ctx = Some (Connection cn)"
    using assms(1) by (auto simp: live_def)
  show ?thesis
  proof (cases "version_table (db w)")
    case None
    have "(db w)\<lparr>version_table := Some [], executed := executed (db w) @ [VersionCreate]\<rparr> =
          \<lparr>version_table = Some [], executed = executed (db w) @ [VersionCreate]\<rparr>"
      by (cases "db w") simp
    then show ?thesis
      using cn assms(2) None
      by (simp add: current_rev_def and_then_def version_create_def version_scalar_def
          connection_execute_def pointer_def)
  next
    case (Some rows)
    then show ?thesis
      using cn assms(2)
      by (simp add: current_rev_def and_then_def version_create_def version_scalar_def)
  qed
qed

lemma current_rev_raises:
  assumes "live ctx" and "truthy (start_from_rev ctx)"
  shows "current_rev ctx w =
     (Inl (CommandError ''Can't specify current_rev to context when using a database connection''), w)"
  using assms by (simp add: live_def current_rev_def and_then_def raise_def)

lemma version_drop_rendering:
  "rendering ctx \<Longrightarrow> version_drop ctx w = (Inr (), w\<lparr>out := out w @ [Rendered VersionDrop]\<rparr>)"
  by (simp add: rendering_def version_drop_def impl_exec_def)

lemma run_migrations_rendering:
  assumes r: "rendering ctx"
    and ok: "\<forall>s\<in>set (migrations_fn ctx (start_from_rev ctx)). change_raises (fst s) = None"
  shows "run_migrations ctx w =
     (Inr (),
      w\<lparr>out := out w @
           (if transactional_ddl (impl ctx) then [Static ''BEGIN;''] else []) @
           create_first None (migrations_fn ctx (start_from_rev ctx)) @
           concat (map (block (transactional_ddl (impl ctx))) (migrations_fn ctx (start_from_rev ctx))) @
           map Rendered (concat (map (\<lambda>(a, b). write_stmts a b)
              (final_write (transactional_ddl (impl ctx)) (migrations_fn ctx (start_from_rev ctx))))) @
           map Rendered (final_drop (migrations_fn ctx (start_from_rev ctx))) @
           (if transactional_ddl (impl ctx) then [Static ''COMMIT;''] else []),
        write_calls := write_calls w @
           step_calls (transactional_ddl (impl ctx)) (migrations_fn ctx (start_from_rev ctx)) @
           final_write (transactional_ddl (impl ctx)) (migrations_fn ctx (start_from_rev ctx))\<rparr>)"
proof -
  have a: "as_sql ctx" using r by (simp add: rendering_def)
  show ?thesis
    by (simp add: run_migrations_def and_then_def when_do_def a static_output_def
        current_rev_rendering [OF r] run_steps_rendering [OF r ok]
        update_current_rev_rendering [OF r] version_drop_rendering [OF r] ret_def
        final_write_def final_drop_def
        split: option.splits)
qed

lemma table_rows_simp: "table_rows \<lparr>version_table = Some rows, executed = ex\<rparr> = rows"
  by (simp add: table_rows_def)

lemma current_rev_live_rows:
  assumes "live ctx" and "\<not> truthy (start_from_rev ctx)"
  shows "current_rev ctx w =
     (Inr (pointer (db w)),
      w\<lparr>db := \<lparr>version_table = Some (table_rows (db w)),
                executed = executed (db w) @
                  (if version_table (db w) = None then [VersionCreate] else [])\<rparr>\<rparr>)"
  using current_rev_live [OF assms, of w]
  by (auto simp: table_rows_def store_surj split: option.splits)

lemma run_migrations_not_sql:
  assumes "\<not> as_sql ctx" and "current_rev ctx w = (Inr start, w0)"
    and "run_steps ctx None (migrations_fn ctx start) w0 = (Inr st, w1)"
  shows "run_migrations ctx w =
     (case st of
        None \<Rightarrow> (Inr (), w1)
      | Some (cur, rv) \<Rightarrow>
          if transactional_ddl (impl ctx) then update_current_rev ctx cur rv w1 else (Inr (), w1))"
  using assms
  by (simp add: run_migrations_def and_then_def when_do_def ret_def case_ret
      split: option.splits prod.splits sum.splits)


text \<open>
  A Live run whose steps all succeed and whose per-step pointer writes the database
  accepts: the run returns when the database accepts the write after the loop as well,
  and raises the database's error at that write when it does not.
\<close>

lemma run_migrations_live:
  assumes l: "live ctx" and s: "\<not> truthy (start_from_rev ctx)"
    and steps: "steps = migrations_fn ctx (pointer (db w))"
    and tx: "tx = transactional_ddl (impl ctx)"
    and ok: "\<forall>s\<in>set steps. change_raises (fst s) = None"
    and acc: "calls_rows (db_reads ctx) (step_calls tx steps) (table_rows (db w)) = Some rows1"
  shows "run_migrations ctx w =
     (case calls_rows (db_reads ctx) (final_write tx steps) rows1 of
        None \<Rightarrow>
          (Inl rejected,
           w\<lparr>db := \<lparr>version_table = Some rows1,
                     executed = executed (db w) @
                       (if version_table (db w) = None then [VersionCreate] else []) @
                       concat (map (step_stmts tx) steps)\<rparr>,
             write_calls := write_calls w @ step_calls tx steps @ final_write tx steps\<rparr>)
      | Some rows' \<Rightarrow>
          (Inr (),
           w\<lparr>db := \<lparr>version_table = Some rows',
                     executed = executed (db w) @
                       (if version_table (db w) = None then [VersionCreate] else []) @
                       concat (map (step_stmts tx) steps) @
                       concat (map (\<lambda>(a, b). write_stmts a b) (final_write tx steps))\<rparr>,
             write_calls := write_calls w @ step_calls tx steps @ final_write tx steps\<rparr>))"
proof -
  have a: "\<not> as_sql ctx" using l by (simp add: live_def)
  let ?create = "if version_table (db w) = None then [VersionCreate] else []"
  let ?w0 = "w\<lparr>db := \<lparr>version_table = Some (table_rows (db w)),
                        executed = executed (db w) @ ?create\<rparr>\<rparr>"
  have rd: "current_rev ctx w = (Inr (pointer (db w)), ?w0)"
    using current_rev_live_rows [OF l s, of w] by simp
  have t0: "version_table (db ?w0) = Some (table_rows (db w))" by simp
  let ?w1 = "w\<lparr>db := \<lparr>version_table = Some rows1,
                        executed = executed (db w) @ ?create @ concat (map (step_stmts tx) steps)\<rparr>,
                write_calls := write_calls w @ step_calls tx steps\<rparr>"
  have rs: "run_steps ctx None (migrations_fn ctx (pointer (db w))) ?w0 = (Inr (advance None steps), ?w1)"
    using run_steps_live [OF l ok t0 acc [unfolded tx], of None] by (simp add: tx steps)
  have t1: "version_table (db ?w1) = Some rows1" by simp
  have run: "run_migrations ctx w =
      (case advance None steps of
         None \<Rightarrow> (Inr (), ?w1)
       | Some (cur, rv) \<Rightarrow> if tx then update_current_rev ctx cur rv ?w1 else (Inr (), ?w1))"
    unfolding tx by (rule run_migrations_not_sql [OF a rd rs [unfolded tx]])
  show ?thesis
  proof (cases "advance None steps")
    case None
    then show ?thesis
      by (simp add: run final_write_def)
  next
    case (Some cr)
    obtain cur rv where cr: "cr = (cur, rv)" by (cases cr)
    show ?thesis
    proof (cases tx)
      case True
      show ?thesis
        using update_current_rev_live [OF l t1, of cur rv]
        by (simp add: run Some cr True final_write_def step_calls_def split: option.splits)
    next
      case False
      then show ?thesis
        by (simp add: run Some cr final_write_def)
    qed
  qed
qed

subsection \<open>Reading the current revision\<close>

lemma current_rev_unbound:
  "current_rev (new_Context d scr None f False buf tddl starting) w =
     (Inl (if truthy starting
           then CommandError ''Can't specify current_rev to context when using a database connection''
           else UnboundExecutionError), w)"
  by (simp add: current_rev_def new_Context_def Let_def and_then_def raise_def version_create_def)


subsection \<open>The statements a run issues\<close>

lemma rendered_stmts_append: "rendered_stmts (xs @ ys) = rendered_stmts xs @ rendered_stmts ys"
  by (induction xs rule: rendered_stmts.induct) simp_all













lemma run_migrations_read_raises:
  assumes "\<not> as_sql ctx" and "current_rev ctx w = (Inl e, w')"
  shows "run_migrations ctx w = (Inl e, w')"
  using assms by (simp add: run_migrations_def when_do_def and_then_def ret_def)

lemma pointer_table_rows:
  "pointer \<lparr>version_table = Some (table_rows s), executed = ex\<rparr> = pointer s"
  by (simp add: pointer_def table_rows_def split: option.splits list.splits)

lemma new_Context_fields:
  "migrations_fn (new_Context d scr conn f sql buf tddl starting) = f"
  "start_from_rev (new_Context d scr conn f sql buf tddl starting) = starting"
  "as_sql (new_Context d scr conn f sql buf tddl starting) = sql"
  by (simp_all add: new_Context_def Let_def)

subsection \<open>A step that raises\<close>

lemma run_steps_raises_rendering:
  assumes r: "rendering ctx" and ok: "\<forall>s\<in>set pre. change_raises (fst s) = None"
    and e: "change_raises c = Some e"
  shows "run_steps ctx st (pre @ (c, p, q) # post) w =
     (Inl e,
      w\<lparr>out := out w @ create_first st pre @
                concat (map (block (transactional_ddl (impl ctx))) pre) @
                create_first (advance st pre) [(c, p, q)] @
                Static (running_line c p q) # map Rendered (map Sql (change_stmts c)),
        write_calls := write_calls w @ step_calls (transactional_ddl (impl ctx)) pre\<rparr>)"
proof -
  have 1: "run_steps ctx st (pre @ (c, p, q) # post) w =
      and_then (run_steps ctx st pre) (\<lambda>st'. run_steps ctx st' ((c, p, q) # post)) w"
    by (simp only: run_steps_append)
  have 2: "\<And>st' w'. run_steps ctx st' ((c, p, q) # post) w' =
      and_then (run_steps ctx st' [(c, p, q)]) (\<lambda>st''. run_steps ctx st'' post) w'"
    using run_steps_append [of ctx _ "[(c, p, q)]" post] by (simp del: run_steps.simps)
  show ?thesis
    using e
    by (simp add: 1 2 and_then_def run_steps_rendering [OF r ok] run_step_rendering [OF r]
        del: run_steps.simps)
qed



subsection \<open>The rows along a chain of steps\<close>


lemma first_row_table_rows: "first_row (table_rows s) = pointer s"
  by (simp add: pointer_def first_row_def table_rows_def split: option.splits list.splits)











subsection \<open>Rendering leaves the store alone\<close>

lemma run_migrations_raises_rendering:
  assumes r: "rendering ctx"
    and st: "migrations_fn ctx (start_from_rev ctx) = pre @ (c, p, q) # post"
    and ok: "\<forall>s\<in>set pre. change_raises (fst s) = None"
    and e: "change_raises c = Some e"
  shows "run_migrations ctx w =
     (Inl e,
      w\<lparr>out := out w @ (if transactional_ddl (impl ctx) then [Static ''BEGIN;''] else []) @
                create_first None pre @
                concat (map (block (transactional_ddl (impl ctx))) pre) @
                create_first (advance None pre) [(c, p, q)] @
                Static (running_line c p q) # map Rendered (map Sql (change_stmts c)),
        write_calls := write_calls w @ step_calls (transactional_ddl (impl ctx)) pre\<rparr>)"
proof -
  have a: "as_sql ctx" using r by (simp add: rendering_def)
  show ?thesis
    by (simp add: run_migrations_def and_then_def when_do_def a ret_def static_output_def
        current_rev_rendering [OF r] st run_steps_raises_rendering [OF r ok e])
qed

lemma run_migrations_rendering_db:
  assumes r: "rendering ctx"
  shows "db (snd (run_migrations ctx w)) = db w"
proof (cases "\<forall>s\<in>set (migrations_fn ctx (start_from_rev ctx)). change_raises (fst s) = None")
  case True
  then show ?thesis
    using run_migrations_rendering [OF r, of w] by simp
next
  case False
  then have "\<exists>s\<in>set (migrations_fn ctx (start_from_rev ctx)). change_raises (fst s) \<noteq> None"
    by simp
  then obtain pre s post where sp: "migrations_fn ctx (start_from_rev ctx) = pre @ s # post"
      and s: "change_raises (fst s) \<noteq> None"
      and pre: "\<forall>y\<in>set pre. \<not> change_raises (fst y) \<noteq> None"
    using split_list_first_prop [of "migrations_fn ctx (start_from_rev ctx)"
        "\<lambda>s. change_raises (fst s) \<noteq> None"] by blast
  obtain c p q where cpq: "s = (c, p, q)" by (cases s)
  obtain e where e: "change_raises c = Some e" using s cpq by auto
  have ok: "\<forall>s\<in>set pre. change_raises (fst s) = None" using pre by simp
  show ?thesis
    using run_migrations_raises_rendering [OF r sp [unfolded cpq] ok e, of w] by simp
qed

lemma block_unfold:
  "block tx = (\<lambda>(c, p, r). Static (running_line c p r) #
       map (Rendered \<circ> Sql) (change_stmts c) @ (if tx then [] else map Rendered (write_stmts p r)))"
  by (rule ext) (simp add: block_def step_stmts_def split: prod.splits)

lemma running_line_not_BEGIN: "running_line c p r \<noteq> ''BEGIN;''"
  by (simp add: running_line_def)

subsection \<open>A Live run over a chain of steps\<close>


subsection \<open>\<open>configure\<close>\<close>

lemma configure_live_ok:
  assumes "arg_connection a = Some c" and "opt_fn (g_context_opts g) = Some f"
    and "opt_as_sql (g_context_opts g) = None \<or> opt_as_sql (g_context_opts g) = Some False"
  shows "configure make_url a g =
     (None, g\<lparr>g_context_opts := store_opts a (g_context_opts g),
              g_context := Some (new_Context (conn_dialect c) (g_script g) (Some c) f False
                 (opt_output_buffer (store_opts a (g_context_opts g)))
                 (opt_transactional_ddl (store_opts a (g_context_opts g)))
                 (opt_starting_rev (store_opts a (g_context_opts g))))\<rparr>)"
proof -
  have f: "opt_fn (store_opts a (g_context_opts g)) = Some f"
    using assms(2) by (simp add: store_opts_def Let_def)
  have s: "(case opt_as_sql (store_opts a (g_context_opts g)) of None \<Rightarrow> False | Some b \<Rightarrow> b) = False"
    using assms(3) by (auto simp: store_opts_def Let_def)
  show ?thesis
    using assms(1) by (simp add: configure_def resolve_dialect_def Let_def f s)
qed

lemma store_opts_fields:
  "opt_transactional_ddl (store_opts a opts) =
     (case arg_transactional_ddl a of None \<Rightarrow> opt_transactional_ddl opts | Some b \<Rightarrow> Some b)"
  "opt_output_buffer (store_opts a opts) =
     (case arg_output_buffer a of None \<Rightarrow> opt_output_buffer opts | Some b \<Rightarrow> Some b)"
  "opt_starting_rev (store_opts a opts) =
     (if truthy (arg_starting_rev a) then arg_starting_rev a else opt_starting_rev opts)"
  "opt_tag (store_opts a opts) = (if truthy (arg_tag a) then arg_tag a else opt_tag opts)"
  "opt_fn (store_opts a opts) = opt_fn opts"
  "opt_as_sql (store_opts a opts) = opt_as_sql opts"
  by (auto simp: store_opts_def Let_def split: option.splits)

lemma configure_opts:
  "g_context_opts (snd (configure make_url a g)) = g_context_opts g \<or>
   g_context_opts (snd (configure make_url a g)) = store_opts a (g_context_opts g)"
  by (simp add: configure_def Let_def split: sum.splits option.splits)

lemma configure_ok:
  assumes "configure make_url a g = (None, g')"
  shows "g_context_opts g' = store_opts a (g_context_opts g)
     \<and> (\<exists>d f. g_context g' = Some (new_Context d (g_script g) (arg_connection a) f
           (case opt_as_sql (g_context_opts g') of None \<Rightarrow> False | Some b \<Rightarrow> b)
           (opt_output_buffer (g_context_opts g'))
           (opt_transactional_ddl (g_context_opts g'))
           (opt_starting_rev (g_context_opts g'))))"
proof -
  obtain d where d: "resolve_dialect make_url a = Inr d"
    using assms by (auto simp: configure_def split: sum.splits)
  obtain f where f: "opt_fn (store_opts a (g_context_opts g)) = Some f"
    using assms d by (auto simp: configure_def Let_def split: option.splits)
  have g': "g' = g\<lparr>g_context_opts := store_opts a (g_context_opts g),
      g_context := Some (new_Context d (g_script g) (arg_connection a) f
        (case opt_as_sql (store_opts a (g_context_opts g)) of None \<Rightarrow> False | Some b \<Rightarrow> b)
        (opt_output_buffer (store_opts a (g_context_opts g)))
        (opt_transactional_ddl (store_opts a (g_context_opts g)))
        (opt_starting_rev (store_opts a (g_context_opts g))))\<rparr>"
    using assms d f by (simp add: configure_def Let_def)
  show ?thesis
    unfolding g' by (intro conjI exI [of _ d] exI [of _ f]) simp_all
qed

lemma configures_keep:
  "\<forall>a\<in>set as. arg_transactional_ddl a = None \<Longrightarrow>
     opt_transactional_ddl (g_context_opts (configures make_url as g)) =
     opt_transactional_ddl (g_context_opts g)"
  "\<forall>a\<in>set as. arg_output_buffer a = None \<Longrightarrow>
     opt_output_buffer (g_context_opts (configures make_url as g)) =
     opt_output_buffer (g_context_opts g)"
  "\<forall>a\<in>set as. \<not> truthy (arg_starting_rev a) \<Longrightarrow>
     opt_starting_rev (g_context_opts (configures make_url as g)) =
     opt_starting_rev (g_context_opts g)"
  "\<forall>a\<in>set as. \<not> truthy (arg_tag a) \<Longrightarrow>
     opt_tag (g_context_opts (configures make_url as g)) = opt_tag (g_context_opts g)"
proof (induction as arbitrary: g)
  case Nil
  {
    case 1 show ?case by simp
  next
    case 2 show ?case by simp
  next
    case 3 show ?case by simp
  next
    case 4 show ?case by simp
  }
next
  case (Cons a as)
  {
    case 1
    then show ?case
      using Cons.IH(1) [of "snd (configure make_url a g)"] configure_opts [of make_url a g]
      by (auto simp: store_opts_fields)
  next
    case 2
    then show ?case
      using Cons.IH(2) [of "snd (configure make_url a g)"] configure_opts [of make_url a g]
      by (auto simp: store_opts_fields)
  next
    case 3
    then show ?case
      using Cons.IH(3) [of "snd (configure make_url a g)"] configure_opts [of make_url a g]
      by (auto simp: store_opts_fields)
  next
    case 4
    then show ?case
      using Cons.IH(4) [of "snd (configure make_url a g)"] configure_opts [of make_url a g]
      by (auto simp: store_opts_fields)
  }
qed

subsection \<open>Replaying what a Rendering run has rendered\<close>








section \<open>The pointer write\<close>






section \<open>Reading the current revision\<close>

text \<open>
  C8.  The read of the current revision, \<open>_current_rev\<close>.  In Live mode (no starting
  revision set, first conjunct) it creates the table \<open>alembic_version\<close> when the table
  is absent, leaves the store as it is otherwise, and returns the stored revision:
  \<open>None\<close> when there is no row, otherwise the value of the row.  In Rendering mode
  (second conjunct) it touches nothing and returns the starting revision it was given,
  which is \<open>None\<close> when none was configured (third conjunct).
\<close>

theorem current_rev_reads:
  "(\<not> truthy starting \<longrightarrow>
      current_rev (new_Context d scr (Some c) f False buf tddl starting) w =
        (Inr (case version_table (db w) of
                None \<Rightarrow> None
              | Some [] \<Rightarrow> None
              | Some (v # vs) \<Rightarrow> Some v),
         (case version_table (db w) of
            None \<Rightarrow> w\<lparr>db := \<lparr>version_table = Some [],
                              executed = executed (db w) @ [VersionCreate]\<rparr>\<rparr>
          | Some rows \<Rightarrow> w)))
   \<and> current_rev (new_Context d scr conn f True buf tddl starting) w = (Inr starting, w)
   \<and> current_rev (new_Context d scr conn f True buf tddl None) w = (Inr None, w)"
proof -
  have s: "\<And>x cn sq. start_from_rev (new_Context d scr cn f sq buf tddl x) = x"
    by (simp add: new_Context_def Let_def)
  show ?thesis
    using current_rev_live [OF new_Context_live, of d scr c f buf tddl starting w]
      current_rev_rendering [OF new_Context_rendering, of d scr conn f buf tddl starting w]
      current_rev_rendering [OF new_Context_rendering, of d scr conn f buf tddl None w]
    by (simp add: s pointer_def)
qed

theorem current_rev_reads_witness:
  "current_rev (new_Context pg None (Some pg_conn) two_steps False None None None) fresh =
     (Inr None, \<lparr>db = \<lparr>version_table = Some [], executed = [VersionCreate]\<rparr>,
                 out = [], write_calls = []\<rparr>)
   \<and> current_rev (new_Context pg None (Some pg_conn) two_steps False None None None) (at_rev ''b2'') =
     (Inr (Some ''b2''), at_rev ''b2'')
   \<and> current_rev (new_Context pg None None two_steps True None None (Some ''a1'')) fresh =
     (Inr (Some ''a1''), fresh)"
proof -
  have n: "\<not> truthy None" by (simp add: truthy_def)
  show ?thesis
    using current_rev_reads [where starting = None and d = pg and scr = None and c = pg_conn
        and f = two_steps and buf = None and tddl = None and w = fresh and conn = None]
      current_rev_reads [where starting = None and d = pg and scr = None and c = pg_conn
        and f = two_steps and buf = None and tddl = None and w = "at_rev ''b2''" and conn = None]
      current_rev_reads [where starting = "Some ''a1''" and d = pg and scr = None and c = pg_conn
        and f = two_steps and buf = None and tddl = None and w = fresh and conn = None]
      n
    by (simp add: fresh_def at_rev_def)
qed

section \<open>The run\<close>



text \<open>
  C4.  A run for which the sequencer yields no step, in either mode and with either
  durability, whether it returns or raises: afterwards the store holds the pointer it
  held before, the pointer write has not been called, and no pointer statement has
  reached the sink.  (The sequencer is asked for the steps from the revision the read
  returns: the starting revision in Rendering mode, the stored pointer in Live mode.)
\<close>

theorem empty_run_writes_nothing:
  assumes "ctx = new_Context d scr conn f sql buf tddl starting"
    and "f (if sql then starting else pointer (db w)) = []"
  shows "pointer (db (snd (run_migrations ctx w))) = pointer (db w)
     \<and> write_calls (snd (run_migrations ctx w)) = write_calls w
     \<and> pointer_writes_issued ctx (snd (run_migrations ctx w)) = pointer_writes_issued ctx w"
proof (cases sql)
  case True
  have r: "rendering ctx" using assms(1) True by (simp add: new_Context_rendering)
  have e: "migrations_fn ctx (start_from_rev ctx) = []"
    using assms True by (simp add: new_Context_fields)
  have ok: "\<forall>s\<in>set (migrations_fn ctx (start_from_rev ctx)). change_raises (fst s) = None"
    by (simp add: e)
  show ?thesis
    using run_migrations_rendering [OF r ok, of w] r
    by (simp add: e rendering_def pointer_writes_issued_def create_first_def final_write_def
        final_drop_def advance_def step_calls_def rendered_stmts_append)
next
  case False
  have a: "\<not> as_sql ctx" using assms(1) False by (simp add: new_Context_fields)
  show ?thesis
  proof (cases conn)
    case None
    have "run_migrations ctx w =
        (Inl (if truthy starting
              then CommandError ''Can't specify current_rev to context when using a database connection''
              else UnboundExecutionError), w)"
      using run_migrations_read_raises [OF a] current_rev_unbound [of d scr f buf tddl starting w]
        assms(1) False None by simp
    then show ?thesis by simp
  next
    case (Some c)
    have l: "live ctx" using assms(1) False Some by (simp add: new_Context_live)
    show ?thesis
    proof (cases "truthy starting")
      case True
      have "truthy (start_from_rev ctx)" using True assms(1) by (simp add: new_Context_fields)
      then show ?thesis
        using run_migrations_read_raises [OF a current_rev_raises [OF l], of w] by simp
    next
      case nt: False
      have s: "\<not> truthy (start_from_rev ctx)" using nt assms(1) by (simp add: new_Context_fields)
      have e: "migrations_fn ctx (pointer (db w)) = []"
        using assms False by (simp add: new_Context_fields)
      have e': "[] = migrations_fn ctx (pointer (db w))" using e by simp
      have ok': "\<forall>s\<in>set ([]::step list). change_raises (fst s) = None" by simp
      have acc: "calls_rows (db_reads ctx) (step_calls (transactional_ddl (impl ctx)) [])
          (table_rows (db w)) = Some (table_rows (db w))"
        by (simp add: step_calls_def)
      show ?thesis
        using run_migrations_live [OF l s e' refl ok' acc] a
        by (simp add: pointer_writes_issued_def final_write_def advance_def step_calls_def
            pointer_table_rows)
    qed
  qed
qed

theorem empty_run_writes_nothing_witness:
  "pointer (db (snd (run_migrations
      (new_Context pg None (Some pg_conn) (\<lambda>start. []) False None None None) (at_rev ''b2'')))) =
     Some ''b2''
   \<and> write_calls (snd (run_migrations
      (new_Context pg None (Some pg_conn) (\<lambda>start. []) False None None None) (at_rev ''b2''))) = []"
proof -
  let ?f = "\<lambda>start::revision. ([]::step list)"
  have e: "?f (if False then None else pointer (db (at_rev ''b2''))) = []"
    by simp
  show ?thesis
    using empty_run_writes_nothing [where f = ?f and sql = False and starting = None
        and w = "at_rev ''b2''" and d = pg and scr = None and conn = "Some pg_conn"
        and buf = None and tddl = None, OF refl e]
    by (simp add: at_rev_def pointer_def)
qed




text \<open>
  C6, as the claim states it, fails for a run that a raising step aborts: with
  transactional durability the output starts with \<open>BEGIN;\<close> and the run ends, with the
  error of the step, before \<open>COMMIT;\<close> is written.
\<close>

theorem rendering_abort_counterexample:
  "transactional_ddl (impl (new_Context pg None None failing_steps True None None None))
   \<and> run_migrations (new_Context pg None None failing_steps True None None None) fresh =
     (Inl (MigrationError ''boom''),
      \<lparr>db = \<lparr>version_table = None, executed = []\<rparr>,
       out = [Static ''BEGIN;'', Rendered VersionCreate,
              Static ''-- Running upgrade None -> a1'', Rendered (Sql ''CREATE TABLE t1''),
              Static ''-- Running upgrade a1 -> b2'', Rendered (Sql ''CREATE TABLE t2'')],
       write_calls = []\<rparr>)"
proof -
  let ?ctx = "new_Context pg None None failing_steps True None None None"
  have r: "rendering ?ctx" by (rule new_Context_rendering)
  have tx: "transactional_ddl (impl ?ctx)"
    by (simp add: new_Context_def new_impl_def Let_def pg_def)
  have st: "migrations_fn ?ctx (start_from_rev ?ctx) =
      [(upgrade ''CREATE TABLE t1'', None, Some ''a1'')] @
      (failing ''CREATE TABLE t2'', Some ''a1'', Some ''b2'') #
      [(upgrade ''CREATE TABLE t3'', Some ''b2'', Some ''c3'')]"
    by (simp add: new_Context_fields failing_steps_def)
  have ok: "\<forall>s\<in>set [(upgrade ''CREATE TABLE t1'', None, Some ''a1'')]. change_raises (fst s) = None"
    by (simp add: upgrade_def)
  have e: "change_raises (failing ''CREATE TABLE t2'') = Some (MigrationError ''boom'')"
    by (simp add: failing_def)
  show ?thesis
    using run_migrations_raises_rendering [OF r st ok e, of fresh] tx
    by (simp add: fresh_def create_first_def advance_def block_def step_stmts_def step_calls_def
        running_line_def str_of_def truthy_def upgrade_def failing_def)
qed

text \<open>
  C6, amended.  A run in Rendering mode.  Whatever happens, the connected store is as it
  was: nothing has been executed on it (first conjunct).  When every step succeeds, the
  run returns and what it has written to the output is \<open>emitted\<close>: for each step, in
  order, one block made of the header line \<open>-- Running name prev -> rev\<close>, the step's
  own statements and, with non-transactional durability, the step's pointer write;
  before the first block the creation of the pointer table when the first \<open>prev_rev\<close>
  is falsy; after the last block the single pointer write of transactional durability
  and the removal of the pointer table when the last \<open>rev\<close> is falsy.  The whole is
  bracketed by \<open>BEGIN;\<close> and \<open>COMMIT;\<close> exactly when durability is transactional.
\<close>

theorem rendering_run_output:
  assumes "ctx = new_Context d scr conn f True buf tddl starting"
    and "tx = transactional_ddl (impl ctx)"
    and "steps = f starting"
    and "emitted =
       (if tx then [Static ''BEGIN;''] else []) @
       (if steps \<noteq> [] \<and> \<not> truthy (fst (snd (hd steps))) then [Rendered VersionCreate] else []) @
       concat (map (\<lambda>(c, p, r). Static (running_line c p r) #
                      map (Rendered \<circ> Sql) (change_stmts c) @
                      (if tx then [] else map Rendered (write_stmts p r))) steps) @
       (if steps \<noteq> [] \<and> tx
        then map Rendered (write_stmts (fst (snd (hd steps))) (snd (snd (last steps)))) else []) @
       (if steps \<noteq> [] \<and> \<not> truthy (snd (snd (last steps))) then [Rendered VersionDrop] else []) @
       (if tx then [Static ''COMMIT;''] else [])"
  shows "db (snd (run_migrations ctx w)) = db w
     \<and> ((\<forall>s\<in>set steps. change_raises (fst s) = None) \<longrightarrow>
          fst (run_migrations ctx w) = Inr ()
        \<and> out (snd (run_migrations ctx w)) = out w @ emitted
        \<and> (tx \<longleftrightarrow> (\<exists>mid. emitted = Static ''BEGIN;'' # mid @ [Static ''COMMIT;''])))"
proof -
  have r: "rendering ctx" using assms(1) by (simp add: new_Context_rendering)
  have fs: "migrations_fn ctx (start_from_rev ctx) = steps"
    using assms(1) assms(3) by (simp add: new_Context_fields)
  have em: "emitted =
       (if tx then [Static ''BEGIN;''] else []) @ create_first None steps @
       concat (map (block tx) steps) @
       map Rendered (concat (map (\<lambda>(a, b). write_stmts a b) (final_write tx steps))) @
       map Rendered (final_drop steps) @
       (if tx then [Static ''COMMIT;''] else [])"
    unfolding assms(4) block_unfold
    by (cases steps) (auto simp: create_first_def final_write_def final_drop_def advance_def)
  have br: "tx \<longleftrightarrow> (\<exists>mid. emitted = Static ''BEGIN;'' # mid @ [Static ''COMMIT;''])"
  proof (cases tx)
    case True
    then show ?thesis unfolding assms(4) by simp
  next
    case False
    have "emitted = [] \<or> hd emitted \<noteq> Static ''BEGIN;''"
      unfolding assms(4) using False
      by (cases steps) (auto simp: running_line_not_BEGIN)
    then show ?thesis using False by auto
  qed
  have "(\<forall>s\<in>set steps. change_raises (fst s) = None) \<longrightarrow>
          fst (run_migrations ctx w) = Inr ()
        \<and> out (snd (run_migrations ctx w)) = out w @ emitted"
  proof
    assume ok: "\<forall>s\<in>set steps. change_raises (fst s) = None"
    have ok': "\<forall>s\<in>set (migrations_fn ctx (start_from_rev ctx)). change_raises (fst s) = None"
      using ok by (simp add: fs)
    show "fst (run_migrations ctx w) = Inr () \<and> out (snd (run_migrations ctx w)) = out w @ emitted"
      using run_migrations_rendering [OF r ok', of w] assms(2)
      by (simp add: fs em)
  qed
  then show ?thesis
    using run_migrations_rendering_db [OF r, of w] br by blast
qed


theorem rendering_run_output_witness:
  "db (snd (run_migrations (new_Context pg None None two_steps True None None None) fresh)) = db fresh
   \<and> fst (run_migrations (new_Context pg None None two_steps True None None None) fresh) = Inr ()
   \<and> out (snd (run_migrations (new_Context pg None None two_steps True None None None) fresh)) =
       [Static ''BEGIN;'', Rendered VersionCreate,
        Static ''-- Running upgrade None -> a1'', Rendered (Sql ''CREATE TABLE t1''),
        Static ''-- Running upgrade a1 -> b2'', Rendered (Sql ''CREATE TABLE t2''),
        Rendered (VersionInsert (quoted ''b2'')), Static ''COMMIT;'']"
proof -
  have ok: "\<forall>s\<in>set (two_steps None). change_raises (fst s) = None"
    by (simp add: two_steps_def upgrade_def)
  have tx: "transactional_ddl (impl (new_Context pg None None two_steps True None None None))"
    by (simp add: new_Context_def new_impl_def Let_def pg_def)
  show ?thesis
    using rendering_run_output [OF refl refl refl refl, of pg None None two_steps None None None fresh]
      ok tx
    by (simp add: two_steps_def upgrade_def truthy_def running_line_def str_of_def
        write_stmts_def fresh_def)
qed



section \<open>Configuration\<close>

text \<open>
  C5, as the claim states it, fails: \<open>configure\<close> with a live connection and a starting
  revision, in Live mode, raises nothing and installs the context.
\<close>

theorem configure_conflict_counterexample:
  "fst (configure no_url conflict_args live_registry) = None
   \<and> g_context (snd (configure no_url conflict_args live_registry)) =
       Some (new_Context pg (Some 0) (Some pg_conn) two_steps False None None (Some ''a1''))"
proof -
  have c: "arg_connection conflict_args = Some pg_conn"
    by (simp add: conflict_args_def plain_args_def)
  have f: "opt_fn (g_context_opts live_registry) = Some two_steps"
    by (simp add: live_registry_def empty_opts_def)
  have s: "opt_as_sql (g_context_opts live_registry) = None \<or>
      opt_as_sql (g_context_opts live_registry) = Some False"
    by (simp add: live_registry_def empty_opts_def)
  show ?thesis
    by (simp add: configure_live_ok [OF c f s] store_opts_fields)
       (simp add: conflict_args_def plain_args_def live_registry_def empty_opts_def truthy_def
          pg_conn_def)
qed

text \<open>
  C5, amended.  With a live connection and a truthy starting revision, in Live mode
  (the registry holds the sequencer and no truthy \<open>as_sql\<close>), \<open>configure\<close> itself
  raises nothing and installs a Live context that holds the starting revision.  The
  conflict is detected by the run: \<open>run_migrations\<close> on the installed context raises
  \<open>CommandError\<close> when it reads the current revision, before any step is executed
  and with the world as it was.
\<close>

theorem conflict_raises_at_run:
  assumes "arg_connection a = Some c" and "truthy (arg_starting_rev a)"
    and "opt_fn (g_context_opts g) = Some f"
    and "opt_as_sql (g_context_opts g) = None \<or> opt_as_sql (g_context_opts g) = Some False"
  shows "fst (configure make_url a g) = None
     \<and> (\<exists>ctx. g_context (snd (configure make_url a g)) = Some ctx
           \<and> \<not> as_sql ctx \<and> start_from_rev ctx = arg_starting_rev a)
     \<and> run_configured (snd (configure make_url a g)) w =
         (Inl (CommandError ''Can't specify current_rev to context when using a database connection''),
          w)"
proof -
  let ?opts = "store_opts a (g_context_opts g)"
  let ?ctx = "new_Context (conn_dialect c) (g_script g) (Some c) f False
     (opt_output_buffer ?opts) (opt_transactional_ddl ?opts) (opt_starting_rev ?opts)"
  have cf: "configure make_url a g =
      (None, g\<lparr>g_context_opts := ?opts, g_context := Some ?ctx\<rparr>)"
    using configure_live_ok [OF assms(1) assms(3) assms(4)] by simp
  have st: "start_from_rev ?ctx = arg_starting_rev a"
    using assms(2) by (simp add: new_Context_fields store_opts_fields)
  have l: "live ?ctx" by (rule new_Context_live)
  have a: "\<not> as_sql ?ctx" by (simp add: new_Context_fields)
  have t: "truthy (start_from_rev ?ctx)" using st assms(2) by simp
  have "run_migrations ?ctx w =
      (Inl (CommandError ''Can't specify current_rev to context when using a database connection''), w)"
    using run_migrations_read_raises [OF a current_rev_raises [OF l t]] by simp
  then show ?thesis
    using st a by (simp add: cf run_configured_def get_context_def)
qed

theorem conflict_raises_at_run_witness:
  "fst (configure no_url conflict_args live_registry) = None
   \<and> run_configured (snd (configure no_url conflict_args live_registry)) fresh =
       (Inl (CommandError ''Can't specify current_rev to context when using a database connection''),
        fresh)"
proof -
  have c: "arg_connection conflict_args = Some pg_conn"
    by (simp add: conflict_args_def plain_args_def)
  have t: "truthy (arg_starting_rev conflict_args)"
    by (simp add: conflict_args_def plain_args_def truthy_def)
  have f: "opt_fn (g_context_opts live_registry) = Some two_steps"
    by (simp add: live_registry_def empty_opts_def)
  have s: "opt_as_sql (g_context_opts live_registry) = None \<or>
      opt_as_sql (g_context_opts live_registry) = Some False"
    by (simp add: live_registry_def empty_opts_def)
  show ?thesis
    using conflict_raises_at_run [OF c t f s, of no_url fresh] by simp
qed

text \<open>
  C9.  Options persist in the registry.  After a \<open>configure\<close> call that succeeds and
  passes an option, every later successful call, with any calls in between, builds its
  context from the stored value as long as all these calls omit the option (for
  \<open>starting_rev\<close> and \<open>tag\<close>: pass a falsy value): the forced durability and not the
  dialect's default, the output buffer and not standard output, the starting revision;
  the tag stays the one \<open>get_tag_argument\<close> returns.  \<open>_clear\<close> empties the registry.
\<close>

theorem options_persist:
  assumes "configure make_url a1 g = (None, g1)"
    and "g2 = configures make_url mid g1"
    and "configure make_url a2 g2 = (None, g3)"
    and "g_context g3 = Some ctx"
  shows "(arg_transactional_ddl a1 = Some b \<longrightarrow>
            (\<forall>a\<in>set (mid @ [a2]). arg_transactional_ddl a = None) \<longrightarrow>
            transactional_ddl (impl ctx) = b)
     \<and> (arg_output_buffer a1 = Some ob \<longrightarrow>
            (\<forall>a\<in>set (mid @ [a2]). arg_output_buffer a = None) \<longrightarrow>
            output_buffer ctx = ob)
     \<and> (truthy (arg_starting_rev a1) \<longrightarrow>
            (\<forall>a\<in>set (mid @ [a2]). \<not> truthy (arg_starting_rev a)) \<longrightarrow>
            start_from_rev ctx = arg_starting_rev a1)
     \<and> (truthy (arg_tag a1) \<longrightarrow>
            (\<forall>a\<in>set (mid @ [a2]). \<not> truthy (arg_tag a)) \<longrightarrow>
            get_tag_argument g3 = arg_tag a1)
     \<and> g_context_opts (clear g3) = empty_opts
     \<and> get_tag_argument (clear g3) = None"
proof -
  have o1: "g_context_opts g1 = store_opts a1 (g_context_opts g)"
    using configure_ok [OF assms(1)] by simp
  have o3: "g_context_opts g3 = store_opts a2 (g_context_opts g2)"
    using configure_ok [OF assms(3)] by simp
  obtain d f where ctx: "ctx = new_Context d (g_script g2) (arg_connection a2) f
      (case opt_as_sql (g_context_opts g3) of None \<Rightarrow> False | Some b \<Rightarrow> b)
      (opt_output_buffer (g_context_opts g3))
      (opt_transactional_ddl (g_context_opts g3))
      (opt_starting_rev (g_context_opts g3))"
    using configure_ok [OF assms(3)] assms(4) by auto
  have 1: "transactional_ddl (impl ctx) = b"
    if "arg_transactional_ddl a1 = Some b" "\<forall>a\<in>set (mid @ [a2]). arg_transactional_ddl a = None"
  proof -
    have "opt_transactional_ddl (g_context_opts g3) = Some b"
      using that configures_keep(1) [of mid make_url g1]
      by (simp add: o3 o1 assms(2) store_opts_fields)
    then show ?thesis by (simp add: ctx new_Context_def new_impl_def Let_def)
  qed
  have 2: "output_buffer ctx = ob"
    if "arg_output_buffer a1 = Some ob" "\<forall>a\<in>set (mid @ [a2]). arg_output_buffer a = None"
  proof -
    have "opt_output_buffer (g_context_opts g3) = Some ob"
      using that configures_keep(2) [of mid make_url g1]
      by (simp add: o3 o1 assms(2) store_opts_fields)
    then show ?thesis by (simp add: ctx new_Context_def Let_def)
  qed
  have 3: "start_from_rev ctx = arg_starting_rev a1"
    if "truthy (arg_starting_rev a1)" "\<forall>a\<in>set (mid @ [a2]). \<not> truthy (arg_starting_rev a)"
  proof -
    have "opt_starting_rev (g_context_opts g3) = arg_starting_rev a1"
      using that configures_keep(3) [of mid make_url g1]
      by (simp add: o3 o1 assms(2) store_opts_fields)
    then show ?thesis by (simp add: ctx new_Context_fields)
  qed
  have 4: "get_tag_argument g3 = arg_tag a1"
    if "truthy (arg_tag a1)" "\<forall>a\<in>set (mid @ [a2]). \<not> truthy (arg_tag a)"
    using that configures_keep(4) [of mid make_url g1]
    by (simp add: get_tag_argument_def o3 o1 assms(2) store_opts_fields)
  have 5: "g_context_opts (clear g3) = empty_opts \<and> get_tag_argument (clear g3) = None"
    by (simp add: clear_def get_tag_argument_def empty_opts_def)
  show ?thesis
    using 1 2 3 4 5 by blast
qed


theorem options_persist_witness:
  "(\<exists>ctx. g_context reconfigured = Some ctx
       \<and> transactional_ddl (impl ctx) = False
       \<and> supports_transactional_ddl (dialect ctx) = True
       \<and> output_buffer ctx = Buffer 7)
   \<and> get_tag_argument reconfigured = Some ''nightly''"
proof -
  let ?g2 = "configures no_url [plain_args] configured"
  have c1: "configure no_url setting_args live_registry = (None, configured)"
    by (simp add: configured_def configure_def resolve_dialect_def store_opts_def Let_def
        setting_args_def plain_args_def live_registry_def empty_opts_def truthy_def)
  have c3: "configure no_url plain_args ?g2 = (None, reconfigured)"
    by (simp add: reconfigured_def configured_def configure_def resolve_dialect_def
        store_opts_def Let_def setting_args_def plain_args_def live_registry_def
        empty_opts_def truthy_def)
  obtain ctx where ctx: "g_context reconfigured = Some ctx"
    using configure_ok [OF c3] by auto
  have d: "supports_transactional_ddl (dialect ctx)"
    using ctx
    by (auto simp: reconfigured_def configured_def configure_def resolve_dialect_def
        store_opts_def Let_def setting_args_def plain_args_def live_registry_def
        empty_opts_def truthy_def new_Context_def pg_conn_def pg_def)
  have t: "arg_transactional_ddl setting_args = Some False"
      "arg_output_buffer setting_args = Some (Buffer 7)"
      "truthy (arg_tag setting_args)" "arg_tag setting_args = Some ''nightly''"
    by (simp_all add: setting_args_def plain_args_def truthy_def)
  have o: "\<forall>a\<in>set ([plain_args] @ [plain_args]). arg_transactional_ddl a = None"
      "\<forall>a\<in>set ([plain_args] @ [plain_args]). arg_output_buffer a = None"
      "\<forall>a\<in>set ([plain_args] @ [plain_args]). \<not> truthy (arg_tag a)"
    by (simp_all add: plain_args_def truthy_def)
  show ?thesis
    using options_persist [OF c1 refl c3 ctx, of False "Buffer 7"] t o d ctx
    by simp
qed

end
